theory Spec2Isabelle
  imports Main
begin

section \<open>Text and the Python library functions the scripts call\<close>

text \<open>
  A Python \<open>str\<close> is modelled as a \<open>string\<close>; one \<open>char\<close> stands for one code point
  below 256. The character classes below are Python's on that range: \<open>str.isspace\<close>,
  \<open>str.lower\<close> and the regular-expression class \<open>\w\<close> (alphanumeric or underscore).
  Paths follow \<open>posixpath\<close> and \<open>pathlib.PurePosixPath\<close> (separator \<open>/\<close>).
\<close>

definition cp :: "char \<Rightarrow> nat" where
  "cp c = of_char c"

definition is_ascii_letter :: "char \<Rightarrow> bool" where
  \<comment> \<open>the regular-expression class \<open>[a-zA-Z]\<close>\<close>
  "is_ascii_letter c = ((97 \<le> cp c \<and> cp c \<le> 122) \<or> (65 \<le> cp c \<and> cp c \<le> 90))"

definition is_word_char :: "char \<Rightarrow> bool" where
  \<comment> \<open>the class \<open>\w\<close> of \<open>re\<close> on \<open>str\<close> patterns: \<open>str.isalnum\<close> or underscore\<close>
  "is_word_char c =
     (is_ascii_letter c \<or> (48 \<le> cp c \<and> cp c \<le> 57) \<or> cp c = 95
      \<or> cp c = 170 \<or> cp c = 178 \<or> cp c = 179 \<or> cp c = 181 \<or> cp c = 185 \<or> cp c = 186
      \<or> (188 \<le> cp c \<and> cp c \<le> 190)
      \<or> (192 \<le> cp c \<and> cp c \<le> 214) \<or> (216 \<le> cp c \<and> cp c \<le> 246) \<or> 248 \<le> cp c)"

definition is_space :: "char \<Rightarrow> bool" where
  \<comment> \<open>\<open>str.isspace\<close>: TAB, LF, VT, FF, CR, FS, GS, RS, US, space, NEL, NBSP\<close>
  "is_space c =
     ((9 \<le> cp c \<and> cp c \<le> 13) \<or> (28 \<le> cp c \<and> cp c \<le> 32) \<or> cp c = 133 \<or> cp c = 160)"

definition lower_char :: "char \<Rightarrow> char" where
  "lower_char c =
     (if (65 \<le> cp c \<and> cp c \<le> 90) \<or> (192 \<le> cp c \<and> cp c \<le> 222 \<and> cp c \<noteq> 215)
      then char_of (cp c + 32) else c)"

definition str_lower :: "string \<Rightarrow> string" where
  "str_lower s = map lower_char s"

definition strip :: "string \<Rightarrow> string" where
  "strip s = rev (dropWhile is_space (rev (dropWhile is_space s)))"

definition startswith :: "string \<Rightarrow> string \<Rightarrow> bool" where
  "startswith s pre = (take (length pre) s = pre)"

definition endswith :: "string \<Rightarrow> string \<Rightarrow> bool" where
  "endswith s suf = (length suf \<le> length s \<and> drop (length s - length suf) s = suf)"

text \<open>\<open>str.split(sep)\<close> for a one-character separator: empty fields are kept.\<close>

fun split_acc :: "char \<Rightarrow> string \<Rightarrow> string \<Rightarrow> string list" where
  "split_acc sep cur [] = [cur]"
| "split_acc sep cur (c # cs) =
     (if c = sep then cur # split_acc sep [] cs else split_acc sep (cur @ [c]) cs)"

definition split :: "char \<Rightarrow> string \<Rightarrow> string list" where
  "split sep s = split_acc sep [] s"

subsection \<open>posixpath and pathlib\<close>

definition join :: "string \<Rightarrow> string \<Rightarrow> string" where
  \<comment> \<open>\<open>os.path.join(a, b)\<close>\<close>
  "join a b =
     (if startswith b ''/'' then b
      else if a = [] \<or> endswith a ''/'' then a @ b
      else a @ ''/'' @ b)"

definition basename :: "string \<Rightarrow> string" where
  \<comment> \<open>\<open>os.path.basename(p)\<close>: what follows the last separator\<close>
  "basename p = rev (takeWhile (\<lambda>c. c \<noteq> CHR ''/'') (rev p))"

definition splitroot :: "string \<Rightarrow> string \<times> string" where
  \<comment> \<open>root and remainder of a POSIX path; exactly two leading slashes are a root of their own\<close>
  "splitroot p =
     (if take 1 p \<noteq> ''/'' then ([], p)
      else if take 1 (drop 1 p) \<noteq> ''/'' \<or> take 1 (drop 2 p) = ''/'' then (''/'', drop 1 p)
      else (take 2 p, drop 2 p))"

definition parts :: "string \<Rightarrow> string list" where
  \<comment> \<open>\<open>Path(p).parts\<close>: the root, if any, then the components that are neither empty nor \<open>.\<close>\<close>
  "parts p =
     (case splitroot p of (root, rel) \<Rightarrow>
        (if root = [] then [] else [root]) @ filter (\<lambda>x. x \<noteq> [] \<and> x \<noteq> ''.'') (split CHR ''/'' rel))"

definition rfind :: "char \<Rightarrow> string \<Rightarrow> int" where
  \<comment> \<open>\<open>p.rfind(c)\<close>: the last index of \<open>c\<close>, or \<open>-1\<close>\<close>
  "rfind c s =
     (if c \<in> set s then int (length s) - 1 - int (length (takeWhile (\<lambda>x. x \<noteq> c) (rev s))) else - 1)"

function skip_dots :: "string \<Rightarrow> nat \<Rightarrow> nat \<Rightarrow> string \<times> string" where
  "skip_dots p filenameIndex dotIndex =
     (if filenameIndex < dotIndex
      then (if take 1 (drop filenameIndex p) \<noteq> ''.'' then (take dotIndex p, drop dotIndex p)
            else skip_dots p (filenameIndex + 1) dotIndex)
      else (p, []))"
  by pat_completeness auto
termination
  by (relation "measure (\<lambda>(p, f, d). d - f)") auto

definition splitext :: "string \<Rightarrow> string \<times> string" where
  \<comment> \<open>\<open>os.path.splitext(p)\<close>: leading dots of the last component start no extension\<close>
  "splitext p =
     (let sepIndex = rfind CHR ''/'' p; dotIndex = rfind CHR ''.'' p
      in if dotIndex > sepIndex then skip_dots p (nat (sepIndex + 1)) (nat dotIndex) else (p, []))"

subsection \<open>Glob matching\<close>

text \<open>
  \<open>fnmatch.fnmatch(name, pattern)\<close> is a parameter of the functions that call it: a value
  of type \<open>string \<Rightarrow> string \<Rightarrow> bool\<close>. \<open>glob_match\<close> is its behaviour on POSIX for a pattern
  without bracket expressions: \<open>*\<close> matches any sequence, \<open>?\<close> any one character,
  every other character itself, case-sensitively.
\<close>

type_synonym fnmatch = "string \<Rightarrow> string \<Rightarrow> bool"

fun glob_match :: "string \<Rightarrow> string \<Rightarrow> bool" where
  "glob_match [] [] = True"
| "glob_match (c # cs) [] = False"
| "glob_match [] (p # ps) = (p = CHR ''*'' \<and> glob_match [] ps)"
| "glob_match (c # cs) (p # ps) =
     (if p = CHR ''*'' then glob_match (c # cs) ps \<or> glob_match cs (p # ps)
      else if p = CHR ''?'' then glob_match cs ps
      else c = p \<and> glob_match cs ps)"

section \<open>The exclusion predicate\<close>

text \<open>
  \<open>should_exclude\<close> of both scripts: for each pattern in turn, every part of the path is
  tried, then the basename; the first match returns \<open>True\<close>.
\<close>

fun should_exclude :: "fnmatch \<Rightarrow> string \<Rightarrow> string list \<Rightarrow> bool" where
  "should_exclude fm path [] = False"
| "should_exclude fm path (pattern # rest) =
     (if list_ex (\<lambda>part. fm part pattern) (parts path) then True
      else if fm (basename path) pattern then True
      else should_exclude fm path rest)"

section \<open>The directory tree and its traversal\<close>

text \<open>
  A directory lists its files (name and what reading the file gives) and its
  subdirectories, in the order \<open>os.scandir\<close> reports them. Opening or reading a file either
  gives its decoded text or raises an exception, kept with its message. A directory that
  \<open>os.walk\<close> does not enter or cannot list (a symbolic link, a permission error) is a
  directory without entries: it contributes nothing to either loop.
\<close>

datatype contents = Readable string | Unreadable string

datatype tree = Dir "(string \<times> contents) list" "(string \<times> tree) list"

text \<open>
  \<open>os.walk(base_dir)\<close>, top down, together with the in-place filter of \<open>dirs\<close> that both
  scripts apply to every triple before the generator resumes: the walk yields \<open>root\<close> and
  \<open>files\<close> of the directory at hand and then descends into the subdirectories that are
  left, each under the path \<open>join root d\<close>. The directory the walk starts from is yielded
  without any test.
\<close>

fun walk :: "fnmatch \<Rightarrow> string list \<Rightarrow> string \<Rightarrow> tree \<Rightarrow> (string \<times> (string \<times> contents) list) list" where
  "walk fm exclude_patterns root (Dir files dirs) =
     (root, files) #
     concat (map (\<lambda>(d, t). walk fm exclude_patterns (join root d) t)
                 (filter (\<lambda>(d, t). \<not> should_exclude fm (join root d) exclude_patterns) dirs))"

section \<open>The word pipeline\<close>

subsection \<open>Word extraction\<close>

text \<open>
  \<open>re.findall(r"\b[a-zA-Z]{2,}\b", s)\<close> as the backtracking matcher runs it. A position
  is the character before it (\<open>None\<close> at the start of the text) and the text from it on.
  \<open>\b\<close> holds where exactly one of the two neighbours is a word character. At a start
  position the greedy repeat first takes every letter there is; \<open>backtrack\<close> then gives
  letters back one at a time, down to two, until \<open>\b\<close> holds at the end. After a match the
  search goes on behind it, otherwise at the next character.
\<close>

definition at_boundary :: "char option \<Rightarrow> string \<Rightarrow> bool" where
  "at_boundary prev rest =
     ((case prev of None \<Rightarrow> False | Some c \<Rightarrow> is_word_char c)
      \<noteq> (case rest of [] \<Rightarrow> False | c # _ \<Rightarrow> is_word_char c))"

fun backtrack :: "string \<Rightarrow> nat \<Rightarrow> string option" where
  "backtrack rest 0 = None"
| "backtrack rest (Suc n) =
     (if Suc n < 2 then None
      else if at_boundary (Some (rest ! n)) (drop (Suc n) rest) then Some (take (Suc n) rest)
      else backtrack rest n)"

definition match_at :: "char option \<Rightarrow> string \<Rightarrow> string option" where
  "match_at prev rest =
     (if at_boundary prev rest then backtrack rest (length (takeWhile is_ascii_letter rest))
      else None)"

function findall :: "char option \<Rightarrow> string \<Rightarrow> string list" where
  "findall prev [] = []"
| "findall prev (c # cs) =
     (case match_at prev (c # cs) of
        Some w \<Rightarrow> w # findall (Some (last w)) (drop (length w) (c # cs))
      | None \<Rightarrow> findall (Some c) cs)"
  by pat_completeness auto
termination
proof (relation "measure (\<lambda>(prev, s). length s)")
  show "wf (measure (\<lambda>(prev, s). length s))" by simp
next
  fix prev :: "char option" and c :: char and cs w :: string
  assume m: "match_at prev (c # cs) = Some w"
  have given_back: "backtrack rest n = Some v \<Longrightarrow> v = [] \<longrightarrow> rest = []" for rest n v
    by (induction n) (auto split: if_splits)
  from m have "backtrack (c # cs) (length (takeWhile is_ascii_letter (c # cs))) = Some w"
    by (simp add: match_at_def split: if_splits)
  from given_back [OF this] have "w \<noteq> []" by simp
  then show "((Some (last w), drop (length w) (c # cs)), (prev, c # cs))
               \<in> measure (\<lambda>(prev, s). length s)"
    by simp
next
  fix prev :: "char option" and c :: char and cs :: string
  show "((Some c, cs), (prev, c # cs)) \<in> measure (\<lambda>(prev, s). length s)" by simp
qed

definition file_words :: "string \<Rightarrow> string list" where
  \<comment> \<open>the words of one file: \<open>re.findall(..., content.lower())\<close>\<close>
  "file_words content = findall None (str_lower content)"

subsection \<open>Collecting the words of a tree\<close>

record counters =
  files_processed :: nat
  files_skipped :: nat

record word_state = counters +
  words :: "string list"
  warnings :: "string list"

definition text_extensions :: "string list" where
  "text_extensions =
     [''.py'', ''.js'', ''.ts'', ''.tsx'', ''.jsx'', ''.java'', ''.go'', ''.cs'', ''.cpp'', ''.c'',
      ''.h'', ''.md'', ''.txt'', ''.html'', ''.css'', ''.json'', ''.yaml'', ''.yml'', ''.sh'',
      ''.rs'', ''.rb'', ''.php'', ''.scala'', ''.kt'']"

definition is_text_file :: "string \<Rightarrow> bool" where
  \<comment> \<open>\<open>any(file.endswith(ext) for ext in text_extensions)\<close>\<close>
  "is_text_file file = list_ex (\<lambda>ext. endswith file ext) text_extensions"

definition read_warning :: "string \<Rightarrow> string \<Rightarrow> string" where
  "read_warning filepath e = ''Warning: Could not read '' @ filepath @ '': '' @ e"

text \<open>
  The body of the loop over \<open>files\<close>. The \<open>try\<close> block either extends \<open>words\<close> and counts the
  file, or the exception is caught and a warning goes to standard error.
\<close>

definition word_file :: "fnmatch \<Rightarrow> string list \<Rightarrow> string \<Rightarrow> string \<times> contents \<Rightarrow> word_state \<Rightarrow> word_state" where
  "word_file fm exclude_patterns root entry st =
     (let file = fst entry; filepath = join root file
      in if should_exclude fm filepath exclude_patterns
         then st\<lparr>files_skipped := files_skipped st + 1\<rparr>
         else if \<not> is_text_file file then st
         else (case snd entry of
                 Readable content \<Rightarrow>
                   st\<lparr>words := words st @ file_words content,
                      files_processed := files_processed st + 1\<rparr>
               | Unreadable e \<Rightarrow> st\<lparr>warnings := warnings st @ [read_warning filepath e]\<rparr>))"

definition word_init :: word_state where
  "word_init = \<lparr>files_processed = 0, files_skipped = 0, words = [], warnings = []\<rparr>"

definition collect_words :: "fnmatch \<Rightarrow> tree \<Rightarrow> string \<Rightarrow> string list \<Rightarrow> word_state" where
  \<comment> \<open>\<open>collect_words(base_dir, exclude_patterns)\<close> on the tree found at \<open>base_dir\<close>\<close>
  "collect_words fm tree base_dir exclude_patterns =
     fold (\<lambda>(root, files) st. fold (word_file fm exclude_patterns root) files st)
          (walk fm exclude_patterns base_dir tree) word_init"

section \<open>The stopword filter\<close>

text \<open>
  What the NLTK import and corpus lookup can do: the import fails; the corpus is there;
  or the first lookup raises \<open>LookupError\<close> and, after the download, the second lookup
  gives the corpus or raises again (which the outer handler catches).
\<close>

datatype nltk = ImportFails | Corpus "string list" | CorpusMissing "string list option"

definition english_stopwords :: "nltk \<Rightarrow> string set" where
  "english_stopwords env =
     (case env of
        ImportFails \<Rightarrow> {}
      | Corpus ws \<Rightarrow> set ws
      | CorpusMissing None \<Rightarrow> {}
      | CorpusMissing (Some ws) \<Rightarrow> set ws)"

definition programming_keywords :: "string set" where
  "programming_keywords = set
     [''var'', ''let'', ''const'', ''def'', ''class'', ''return'', ''import'', ''function'', ''if'',
      ''else'', ''elif'', ''then'', ''end'', ''do'', ''while'', ''for'', ''try'', ''catch'',
      ''finally'', ''throw'', ''new'', ''this'', ''self'', ''super'', ''true'', ''false'', ''none'',
      ''null'', ''undefined'', ''void'', ''public'', ''private'', ''protected'', ''static'',
      ''final'', ''abstract'', ''interface'', ''extends'', ''implements'', ''package'',
      ''namespace'', ''using'', ''include'', ''define'', ''ifdef'', ''endif'', ''extern'',
      ''typeof'', ''instanceof'', ''async'', ''await'', ''yield'', ''lambda'', ''del'', ''pass'',
      ''break'', ''continue'', ''raise'', ''except'', ''assert'', ''switch'', ''case'', ''default'',
      ''goto'', ''struct'', ''enum'', ''union'', ''typedef'', ''sizeof'', ''const'', ''volatile'',
      ''inline'', ''virtual'']"

text \<open>
  A frequency table is a \<open>dict\<close>: an association list in insertion order. The source
  builds \<open>programming_keywords\<close> and then leaves it out of \<open>all_stopwords\<close>.
\<close>

definition filter_stopwords :: "nltk \<Rightarrow> (string \<times> nat) list \<Rightarrow> (string \<times> nat) list" where
  "filter_stopwords env word_counts =
     (let keywords = programming_keywords;
          all_stopwords = english_stopwords env
      in filter (\<lambda>(word, count). word \<notin> all_stopwords) word_counts)"

section \<open>The pattern loader\<close>

text \<open>
  Iterating over a file opened in text mode: a line ends at LF, CR or CR LF, each handed
  over as a single LF; the last line may lack its terminator. \<open>cr\<close> says that the
  character just read was a CR, so that a LF right after it belongs to the same line end.
\<close>

fun readlines :: "string \<Rightarrow> bool \<Rightarrow> string \<Rightarrow> string list" where
  "readlines cur cr [] = (if cur = [] then [] else [cur])"
| "readlines cur cr (c # cs) =
     (if c = CHR 0x0A then
        (if cr then readlines cur False cs else (cur @ [CHR 0x0A]) # readlines [] False cs)
      else if c = CHR 0x0D then (cur @ [CHR 0x0A]) # readlines [] True cs
      else readlines (cur @ [c]) False cs)"

fun load_loop :: "string list \<Rightarrow> string list \<Rightarrow> string list" where
  "load_loop patterns [] = patterns"
| "load_loop patterns (line # rest) =
     (let line' = strip line
      in if line' \<noteq> [] \<and> \<not> startswith line' ''#''
         then load_loop (patterns @ [line']) rest
         else load_loop patterns rest)"

text \<open>
  The path given to the loader either does not exist or exists; opening and reading an
  existing path gives its text or raises, and the loader catches nothing.
\<close>

datatype exclude_file = Absent | Existing contents

definition load_exclude_patterns :: "exclude_file \<Rightarrow> string + string list" where
  "load_exclude_patterns exclude_file =
     (case exclude_file of
        Absent \<Rightarrow> Inr []
      | Existing (Readable text) \<Rightarrow> Inr (load_loop [] (readlines [] False text))
      | Existing (Unreadable e) \<Rightarrow> Inl e)"

section \<open>The language pipeline\<close>

definition LANGUAGE_MAP :: "(string \<times> string) list" where
  "LANGUAGE_MAP =
     [(''.py'', ''Python''), (''.js'', ''JavaScript''), (''.ts'', ''TypeScript''),
      (''.tsx'', ''TypeScript''), (''.jsx'', ''JavaScript''), (''.java'', ''Java''),
      (''.go'', ''Go''), (''.rs'', ''Rust''), (''.c'', ''C''), (''.cpp'', ''C++''),
      (''.cc'', ''C++''), (''.cxx'', ''C++''), (''.h'', ''C''), (''.hpp'', ''C++''),
      (''.cs'', ''C#''), (''.rb'', ''Ruby''), (''.php'', ''PHP''), (''.swift'', ''Swift''),
      (''.kt'', ''Kotlin''), (''.scala'', ''Scala''), (''.r'', ''R''), (''.m'', ''Objective-C''),
      (''.sh'', ''Shell''), (''.bash'', ''Bash''), (''.pl'', ''Perl''), (''.lua'', ''Lua''),
      (''.vim'', ''VimScript''), (''.el'', ''Emacs-Lisp''), (''.clj'', ''Clojure''),
      (''.ex'', ''Elixir''), (''.erl'', ''Erlang''), (''.hs'', ''Haskell''), (''.ml'', ''OCaml''),
      (''.sql'', ''SQL''), (''.dockerfile'', ''Docker''), (''.tf'', ''Terraform''),
      (''.yaml'', ''YAML''), (''.yml'', ''YAML''), (''.json'', ''JSON''), (''.xml'', ''XML''),
      (''.html'', ''HTML''), (''.css'', ''CSS''), (''.scss'', ''SCSS''), (''.sass'', ''Sass''),
      (''.less'', ''Less''), (''.md'', ''Markdown''), (''.rst'', ''reStructuredText''),
      (''.tex'', ''LaTeX'')]"

text \<open>
  \<open>d[k] = v\<close> on a \<open>dict\<close>: an existing key keeps its place, a new one goes to the end.
  Reading a missing key of a \<open>Counter\<close> gives 0.
\<close>

fun dict_set :: "'k \<Rightarrow> 'v \<Rightarrow> ('k \<times> 'v) list \<Rightarrow> ('k \<times> 'v) list" where
  "dict_set k v [] = [(k, v)]"
| "dict_set k v ((k', v') # kvs) =
     (if k' = k then (k, v) # kvs else (k', v') # dict_set k v kvs)"

definition counter_get :: "('k \<times> nat) list \<Rightarrow> 'k \<Rightarrow> nat" where
  "counter_get c k = (case map_of c k of None \<Rightarrow> 0 | Some n \<Rightarrow> n)"

definition list_get :: "('k \<times> 'v list) list \<Rightarrow> 'k \<Rightarrow> 'v list" where
  \<comment> \<open>the list under a key that is present; every call below follows the line that inserts it\<close>
  "list_get d k = (case map_of d k of None \<Rightarrow> [] | Some vs \<Rightarrow> vs)"

record lang_state = counters +
  language_counts :: "(string \<times> nat) list"
  files_by_language :: "(string \<times> string list) list"

definition lang_file :: "fnmatch \<Rightarrow> string list \<Rightarrow> string \<Rightarrow> string \<times> contents \<Rightarrow> lang_state \<Rightarrow> lang_state" where
  "lang_file fm exclude_patterns root entry st =
     (let file = fst entry; filepath = join root file
      in if should_exclude fm filepath exclude_patterns
         then st\<lparr>files_skipped := files_skipped st + 1\<rparr>
         else
           (let ext = str_lower (snd (splitext file))
            in case map_of LANGUAGE_MAP ext of
                 None \<Rightarrow> st
               | Some language \<Rightarrow>
                   (let counts = dict_set language (counter_get (language_counts st) language + 1)
                                   (language_counts st);
                        by_language = (if map_of (files_by_language st) language = None
                                       then dict_set language [] (files_by_language st)
                                       else files_by_language st);
                        by_language' = dict_set language (list_get by_language language @ [filepath])
                                         by_language
                    in st\<lparr>language_counts := counts, files_by_language := by_language',
                          files_processed := files_processed st + 1\<rparr>)))"

definition lang_init :: lang_state where
  "lang_init = \<lparr>files_processed = 0, files_skipped = 0, language_counts = [],
                 files_by_language = []\<rparr>"

definition collect_languages :: "fnmatch \<Rightarrow> tree \<Rightarrow> string \<Rightarrow> string list \<Rightarrow> lang_state" where
  \<comment> \<open>\<open>collect_languages(base_dir, exclude_patterns)\<close> on the tree found at \<open>base_dir\<close>\<close>
  "collect_languages fm tree base_dir exclude_patterns =
     fold (\<lambda>(root, files) st. fold (lang_file fm exclude_patterns root) files st)
          (walk fm exclude_patterns base_dir tree) lang_init"

section \<open>The runs of the two loops\<close>

text \<open>
  The pairs of \<open>root\<close> and directory entry for which the body of the inner loop runs, in
  the order in which it runs. The nested loops of both scripts are one pass over this
  list.
\<close>

definition visits :: "fnmatch \<Rightarrow> string list \<Rightarrow> string \<Rightarrow> tree \<Rightarrow> (string \<times> string \<times> contents) list" where
  "visits fm exclude_patterns base_dir tree =
     concat (map (\<lambda>(root, files). map (Pair root) files) (walk fm exclude_patterns base_dir tree))"

text \<open>
  What holds of the state of the language pipeline between any two runs of the loop body:
  the processed counter is the sum of the counts, every label has as many recorded paths
  as its count says, no label occurs twice and the two dictionaries have the same keys
  (in the same order).
\<close>

definition lang_inv :: "lang_state \<Rightarrow> bool" where
  "lang_inv st =
     (files_processed st = sum_list (map snd (language_counts st))
      \<and> (\<forall>l. counter_get (language_counts st) l = length (list_get (files_by_language st) l))
      \<and> distinct (map fst (language_counts st))
      \<and> map fst (language_counts st) = map fst (files_by_language st))"

text \<open>
  Predicates and projections on a visit, used to say what a run of the loops counts and
  collects: whether the file's path is excluded, whether the word pipeline would open the
  file, whether reading it succeeds, the words and the warning it then contributes, and
  whether the language pipeline knows its extension.
\<close>

definition excluded :: "fnmatch \<Rightarrow> string list \<Rightarrow> string \<times> string \<times> contents \<Rightarrow> bool" where
  "excluded fm exclude_patterns v =
     (case v of (root, file, c) \<Rightarrow> should_exclude fm (join root file) exclude_patterns)"

definition candidate :: "fnmatch \<Rightarrow> string list \<Rightarrow> string \<times> string \<times> contents \<Rightarrow> bool" where
  "candidate fm exclude_patterns v =
     (case v of (root, file, c) \<Rightarrow>
        \<not> should_exclude fm (join root file) exclude_patterns \<and> is_text_file file)"

definition readable :: "string \<times> string \<times> contents \<Rightarrow> bool" where
  "readable v = (case v of (root, file, Readable content) \<Rightarrow> True | (root, file, Unreadable e) \<Rightarrow> False)"

definition read_words :: "string \<times> string \<times> contents \<Rightarrow> string list" where
  "read_words v =
     (case v of (root, file, Readable content) \<Rightarrow> file_words content
              | (root, file, Unreadable e) \<Rightarrow> [])"

definition read_warnings :: "string \<times> string \<times> contents \<Rightarrow> string list" where
  "read_warnings v =
     (case v of (root, file, Readable content) \<Rightarrow> []
              | (root, file, Unreadable e) \<Rightarrow> [read_warning (join root file) e])"

definition known_language :: "string \<times> string \<times> contents \<Rightarrow> bool" where
  "known_language v =
     (case v of (root, file, c) \<Rightarrow> map_of LANGUAGE_MAP (str_lower (snd (splitext file))) \<noteq> None)"

text \<open>
  A directory of the tree is named by the chain of directory names that leads to it from
  the base directory; \<open>path_of\<close> is the path string the walk builds for it. \<open>walk_chain\<close> is
  the walk again, yielding the chain in place of the path string.
\<close>

definition path_of :: "string \<Rightarrow> string list \<Rightarrow> string" where
  "path_of base_dir ds = foldl join base_dir ds"

fun walk_chain :: "fnmatch \<Rightarrow> string list \<Rightarrow> string \<Rightarrow> string list \<Rightarrow> tree \<Rightarrow> (string list \<times> (string \<times> contents) list) list" where
  "walk_chain fm exclude_patterns base_dir ds (Dir files dirs) =
     (ds, files) #
     concat (map (\<lambda>(d, t). walk_chain fm exclude_patterns base_dir (ds @ [d]) t)
                 (filter (\<lambda>(d, t). \<not> should_exclude fm (join (path_of base_dir ds) d) exclude_patterns)
                         dirs))"

section \<open>Maximal runs\<close>

text \<open>
  The maximal runs of characters that satisfy \<open>P\<close>, in order of appearance: \<open>runs\<close> reads
  the text once, \<open>cur\<close> being the run read so far.
\<close>

fun runs :: "(char \<Rightarrow> bool) \<Rightarrow> string \<Rightarrow> string \<Rightarrow> string list" where
  "runs P cur [] = (if cur = [] then [] else [cur])"
| "runs P cur (c # cs) =
     (if P c then runs P (cur @ [c]) cs
      else (if cur = [] then [] else [cur]) @ runs P [] cs)"

definition maximal_runs :: "(char \<Rightarrow> bool) \<Rightarrow> string \<Rightarrow> string list" where
  "maximal_runs P s = runs P [] s"

text \<open>
  The words of a text as the specification words them: the maximal runs of ASCII letters
  of the lowercased content that have at least two letters.
\<close>

definition claimed_words :: "string \<Rightarrow> string list" where
  "claimed_words content =
     filter (\<lambda>w. 2 \<le> length w) (maximal_runs is_ascii_letter (str_lower content))"

text \<open>A run the pattern can match as a whole: two or more characters, ASCII letters only.\<close>

definition plain_word :: "string \<Rightarrow> bool" where
  "plain_word w = (2 \<le> length w \<and> list_all is_ascii_letter w)"

section \<open>Properties of the stopword filter\<close>

lemma map_of_filter_key:
  "map_of (filter (\<lambda>(k, v). P k) kvs) w = (if P w then map_of kvs w else None)"
  by (induction kvs) auto

lemma map_fst_filter_key:
  "map fst (filter (\<lambda>(k, v). P k) kvs) = filter P (map fst kvs)"
  by (induction kvs) auto

text \<open>
  C3. Filtering a frequency table \<open>T\<close> removes exactly the keys that are stopwords: a
  stopword has no entry afterwards, every other key keeps the count it had, the keys left
  are the keys of \<open>T\<close> that are no stopwords, in their order, and no entry is new. Any set
  of strings can be the stopword set (a corpus \<open>S\<close> gives \<open>set S\<close>).
\<close>

theorem filter_stopwords_removes_exactly:
  "map_of (filter_stopwords env T) w
     = (if w \<in> english_stopwords env then None else map_of T w)
   \<and> map fst (filter_stopwords env T) = filter (\<lambda>k. k \<notin> english_stopwords env) (map fst T)
   \<and> set (filter_stopwords env T) = {(k, c). (k, c) \<in> set T \<and> k \<notin> english_stopwords env}
   \<and> english_stopwords (Corpus S) = set S"
  by (auto simp: filter_stopwords_def map_of_filter_key map_fst_filter_key english_stopwords_def)

text \<open>
  C5. The programming keywords are not applied: an entry of the table whose key is a
  programming keyword is kept by the filter exactly when the key is no English stopword.
\<close>

theorem keywords_not_applied:
  assumes "w \<in> programming_keywords" and "(w, c) \<in> set T"
  shows "((w, c) \<in> set (filter_stopwords env T)) = (w \<notin> english_stopwords env)"
  using assms by (auto simp: filter_stopwords_def)

theorem keywords_not_applied_witness:
  "''def'' \<in> programming_keywords \<and> ''if'' \<in> programming_keywords
   \<and> (''def'', 1) \<in> set (filter_stopwords (Corpus [''if'', ''the'']) [(''def'', 1), (''if'', 2)])
   \<and> (''if'', 2) \<notin> set (filter_stopwords (Corpus [''if'', ''the'']) [(''def'', 1), (''if'', 2)])"
proof -
  have k1: "''def'' \<in> programming_keywords" and k2: "''if'' \<in> programming_keywords"
    by (simp_all add: programming_keywords_def)
  have m1: "(''def'', 1::nat) \<in> set [(''def'', 1), (''if'', 2)]"
    and m2: "(''if'', 2::nat) \<in> set [(''def'', 1), (''if'', 2)]" by simp_all
  from keywords_not_applied [OF k1 m1, of "Corpus [''if'', ''the'']"]
       keywords_not_applied [OF k2 m2, of "Corpus [''if'', ''the'']"] k1 k2
  show ?thesis by (simp add: english_stopwords_def)
qed

section \<open>Properties of the pattern loader\<close>

lemma load_loop_filter:
  "load_loop patterns ls
     = patterns @ filter (\<lambda>l. l \<noteq> [] \<and> \<not> startswith l ''#'') (map strip ls)"
  by (induction ls arbitrary: patterns) (simp_all add: Let_def)

text \<open>
  C7. For a path that does not exist the loader returns the empty pattern list. For an
  existing, readable file it returns the stripped lines of the file in file order, without
  the lines that are empty after stripping and without those that start with \<open>#\<close>.
\<close>

theorem load_exclude_patterns_lines:
  "load_exclude_patterns Absent = Inr []
   \<and> load_exclude_patterns (Existing (Readable text))
       = Inr (filter (\<lambda>l. l \<noteq> [] \<and> \<not> startswith l ''#'') (map strip (readlines [] False text)))"
  by (simp add: load_exclude_patterns_def load_loop_filter)

section \<open>Properties of the two extension tests\<close>

lemma endswith_iff: "endswith s suf = (\<exists>pre. s = pre @ suf)"
proof
  assume "endswith s suf"
  then have "s = take (length s - length suf) s @ suf"
    by (metis append_take_drop_id endswith_def)
  then show "\<exists>pre. s = pre @ suf" ..
next
  assume "\<exists>pre. s = pre @ suf"
  then show "endswith s suf" by (auto simp: endswith_def)
qed

lemma lower_PY: "str_lower ''.PY'' = ''.py''"
  by code_simp

lemma splitext_A_PY: "splitext ''A.PY'' = (''A'', ''.PY'')"
  by (simp add: splitext_def rfind_def)

lemma splitext_dot_py: "splitext ''.py'' = (''.py'', [])"
  by (simp add: splitext_def rfind_def)

lemma map_of_dict_set: "map_of (dict_set k v d) = (map_of d)(k \<mapsto> v)"
  by (induction d) (auto simp: fun_eq_iff)

lemma counter_get_dict_set:
  "counter_get (dict_set k v d) k' = (if k' = k then v else counter_get d k')"
  by (simp add: counter_get_def map_of_dict_set)

lemma list_get_dict_set:
  "list_get (dict_set k v d) k' = (if k' = k then v else list_get d k')"
  by (simp add: list_get_def map_of_dict_set)

text \<open>
  C10. In the word pipeline the test for a text file is a case-sensitive suffix test on the
  whole file name: a name passes exactly when it ends in one of the listed extensions. So a
  file named \<open>.py\<close> is read and counted as processed, while \<open>A.PY\<close> leaves the state of the
  word pipeline untouched (neither processed nor skipped, no words, no warning). The
  language pipeline lowercases the extension it computes and counts \<open>A.PY\<close> as Python; there
  the name \<open>.py\<close> has no extension and is not counted.
\<close>

theorem text_file_test_is_suffix_test:
  "is_text_file file = (\<exists>pre ext. ext \<in> set text_extensions \<and> file = pre @ ext)
   \<and> is_text_file ''.py'' \<and> \<not> is_text_file ''A.PY''
   \<and> collect_words fm (Dir [(''.py'', Readable text)] []) base_dir []
       = \<lparr>files_processed = 1, files_skipped = 0, words = file_words text, warnings = []\<rparr>
   \<and> collect_words fm (Dir [(''A.PY'', Readable text)] []) base_dir [] = word_init
   \<and> language_counts (collect_languages fm (Dir [(''A.PY'', Readable text)] []) base_dir [])
       = [(''Python'', 1)]
   \<and> language_counts (collect_languages fm (Dir [(''.py'', Readable text)] []) base_dir []) = []"
proof -
  have a: "is_text_file file = (\<exists>pre ext. ext \<in> set text_extensions \<and> file = pre @ ext)"
    unfolding is_text_file_def list_ex_iff endswith_iff by blast
  have b: "is_text_file ''.py''"
    by (simp add: is_text_file_def text_extensions_def endswith_def)
  have c: "\<not> is_text_file ''A.PY''"
    by (simp add: is_text_file_def text_extensions_def endswith_def)
  have d: "collect_words fm (Dir [(''.py'', Readable text)] []) base_dir []
       = \<lparr>files_processed = 1, files_skipped = 0, words = file_words text, warnings = []\<rparr>"
    using b by (simp add: collect_words_def word_file_def word_init_def)
  have e: "collect_words fm (Dir [(''A.PY'', Readable text)] []) base_dir [] = word_init"
    using c by (simp add: collect_words_def word_file_def)
  have f: "language_counts (collect_languages fm (Dir [(''A.PY'', Readable text)] []) base_dir [])
       = [(''Python'', 1)]"
    by (simp add: collect_languages_def lang_file_def lang_init_def splitext_A_PY lower_PY
        LANGUAGE_MAP_def counter_get_def)
  have g: "language_counts (collect_languages fm (Dir [(''.py'', Readable text)] []) base_dir []) = []"
    by (simp add: collect_languages_def lang_file_def lang_init_def splitext_dot_py str_lower_def
        LANGUAGE_MAP_def)
  from a b c d e f g show ?thesis by blast
qed

section \<open>Properties of the language pipeline\<close>

text \<open>
  C4. A file that no pattern excludes and whose lowercased extension is a key of the
  language map adds one to the count of the mapped label, is appended to the files recorded
  under that label and adds one to the processed counter; other labels and the skipped
  counter stay as they are. With an extension that is no key the state does not change at
  all. The tree with \<open>x.go\<close>, \<open>y.rs\<close> and \<open>z.unknown\<close> and no patterns gives the counts
  Go 1 and Rust 1, two processed files and no skipped one.
\<close>

theorem language_file_counted:
  assumes "\<not> should_exclude fm (join root file) exclude_patterns"
    and "st' = lang_file fm exclude_patterns root (file, c) st"
  shows "(case map_of LANGUAGE_MAP (str_lower (snd (splitext file))) of
            Some language \<Rightarrow>
              counter_get (language_counts st') language
                = counter_get (language_counts st) language + 1
              \<and> list_get (files_by_language st') language
                  = list_get (files_by_language st) language @ [join root file]
              \<and> (\<forall>l. l \<noteq> language \<longrightarrow>
                     counter_get (language_counts st') l = counter_get (language_counts st) l
                     \<and> list_get (files_by_language st') l = list_get (files_by_language st) l)
              \<and> files_processed st' = files_processed st + 1
              \<and> files_skipped st' = files_skipped st
          | None \<Rightarrow> st' = st)
         \<and> collect_languages fm
              (Dir [(''x.go'', c1), (''y.rs'', c2), (''z.unknown'', c3)] []) ''repo'' []
             = \<lparr>files_processed = 2, files_skipped = 0,
                language_counts = [(''Go'', 1), (''Rust'', 1)],
                files_by_language = [(''Go'', [''repo/x.go'']), (''Rust'', [''repo/y.rs''])]\<rparr>"
proof -
  have step: "(case map_of LANGUAGE_MAP (str_lower (snd (splitext file))) of
            Some language \<Rightarrow>
              counter_get (language_counts st') language
                = counter_get (language_counts st) language + 1
              \<and> list_get (files_by_language st') language
                  = list_get (files_by_language st) language @ [join root file]
              \<and> (\<forall>l. l \<noteq> language \<longrightarrow>
                     counter_get (language_counts st') l = counter_get (language_counts st) l
                     \<and> list_get (files_by_language st') l = list_get (files_by_language st) l)
              \<and> files_processed st' = files_processed st + 1
              \<and> files_skipped st' = files_skipped st
          | None \<Rightarrow> st' = st)"
  proof (cases "map_of LANGUAGE_MAP (str_lower (snd (splitext file)))")
    case None
    with assms show ?thesis by (simp add: lang_file_def)
  next
    case (Some language)
    with assms show ?thesis
      by (simp add: lang_file_def Let_def counter_get_dict_set list_get_dict_set)
        (simp add: list_get_def)
  qed
  have ext: "splitext ''x.go'' = (''x'', ''.go'')" "splitext ''y.rs'' = (''y'', ''.rs'')"
    "splitext ''z.unknown'' = (''z'', ''.unknown'')"
    by (simp_all add: splitext_def rfind_def)
  have low: "str_lower ''.go'' = ''.go''" "str_lower ''.rs'' = ''.rs''"
    "str_lower ''.unknown'' = ''.unknown''"
    by (simp_all add: str_lower_def lower_char_def cp_def)
  have look: "map_of LANGUAGE_MAP ''.go'' = Some ''Go''" "map_of LANGUAGE_MAP ''.rs'' = Some ''Rust''"
    "map_of LANGUAGE_MAP ''.unknown'' = None"
    by (simp_all add: LANGUAGE_MAP_def)
  have paths: "join ''repo'' ''x.go'' = ''repo/x.go''" "join ''repo'' ''y.rs'' = ''repo/y.rs''"
    by (simp_all add: join_def startswith_def endswith_def)
  have scen: "collect_languages fm
              (Dir [(''x.go'', c1), (''y.rs'', c2), (''z.unknown'', c3)] []) ''repo'' []
             = \<lparr>files_processed = 2, files_skipped = 0,
                language_counts = [(''Go'', 1), (''Rust'', 1)],
                files_by_language = [(''Go'', [''repo/x.go'']), (''Rust'', [''repo/y.rs''])]\<rparr>"
    by (simp add: collect_languages_def lang_file_def lang_init_def ext low look paths
        counter_get_def list_get_def)
  from step scen show ?thesis by blast
qed

theorem language_file_counted_witness:
  "\<not> should_exclude glob_match (join ''repo'' ''x.go'') [''*.rs'']
   \<and> counter_get (language_counts (lang_file glob_match [''*.rs''] ''repo'' (''x.go'', Readable []) lang_init)) ''Go'' = 1
   \<and> lang_file glob_match [''*.rs''] ''repo'' (''z.unknown'', Readable []) lang_init = lang_init"
proof -
  have p1: "join ''repo'' ''x.go'' = ''repo/x.go''" and p2: "join ''repo'' ''z.unknown'' = ''repo/z.unknown''"
    by (simp_all add: join_def startswith_def endswith_def)
  have h1: "\<not> should_exclude glob_match (join ''repo'' ''x.go'') [''*.rs'']"
    by (simp add: p1 parts_def splitroot_def split_def basename_def)
  have h2: "\<not> should_exclude glob_match (join ''repo'' ''z.unknown'') [''*.rs'']"
    by (simp add: p2 parts_def splitroot_def split_def basename_def)
  have e1: "map_of LANGUAGE_MAP (str_lower (snd (splitext ''x.go''))) = Some ''Go''"
    by (simp add: splitext_def rfind_def str_lower_def lower_char_def cp_def LANGUAGE_MAP_def)
  have e2: "map_of LANGUAGE_MAP (str_lower (snd (splitext ''z.unknown''))) = None"
    by (simp add: splitext_def rfind_def str_lower_def lower_char_def cp_def LANGUAGE_MAP_def)
  have c0: "counter_get (language_counts lang_init) ''Go'' = 0"
    by (simp add: lang_init_def counter_get_def)
  from language_file_counted [OF h1 refl, of "Readable []" lang_init]
       language_file_counted [OF h2 refl, of "Readable []" lang_init] h1 e1 e2 c0
  show ?thesis by simp
qed

section \<open>Properties of the exclusion predicate\<close>

lemma should_exclude_iff:
  "should_exclude fm path pats
     = (\<exists>pat\<in>set pats. (\<exists>part\<in>set (parts path). fm part pat) \<or> fm (basename path) pat)"
  by (induction pats) (auto simp: list_ex_iff)

lemma split_acc_nonempty: "split_acc sep cur s \<noteq> []"
  by (induction s arbitrary: cur) auto

lemma last_split_acc:
  "last (split_acc sep cur s)
     = (if sep \<in> set s then rev (takeWhile (\<lambda>c. c \<noteq> sep) (rev s)) else cur @ s)"
proof (induction s arbitrary: cur)
  case Nil
  then show ?case by simp
next
  case (Cons c cs)
  show ?case
  proof (cases "c = sep")
    case True
    then show ?thesis
      using Cons.IH [of "[]"] by (auto simp: split_acc_nonempty takeWhile_append)
  next
    case False
    then show ?thesis
      using Cons.IH [of "cur @ [c]"] by (auto simp: takeWhile_append)
  qed
qed

lemma tail_no_sep:
  assumes "sep \<notin> set s"
  shows "rev (takeWhile (\<lambda>c. c \<noteq> sep) (rev s)) = s"
proof -
  have "takeWhile (\<lambda>c. c \<noteq> sep) (rev s) = rev s"
    using assms by (intro takeWhile_eq_all_conv [THEN iffD2]) auto
  then have "rev (takeWhile (\<lambda>c. c \<noteq> sep) (rev s)) = rev (rev s)" by (rule arg_cong)
  then show ?thesis by (simp only: rev_rev_ident)
qed

lemma last_split: "last (split CHR ''/'' s) = basename s"
  by (simp add: split_def last_split_acc basename_def tail_no_sep)

lemma basename_slash: "basename (CHR ''/'' # s) = basename s"
proof (cases "CHR ''/'' \<in> set s")
  case True
  then show ?thesis by (auto simp: basename_def takeWhile_append)
next
  case False
  from tail_no_sep [OF this] show ?thesis
    using False by (simp add: basename_def takeWhile_append)
qed

lemma basename_splitroot: "basename (snd (splitroot p)) = basename p"
proof (cases p)
  case Nil
  then show ?thesis by (simp add: splitroot_def)
next
  case (Cons a q)
  note p = this
  show ?thesis
  proof (cases "a = CHR ''/''")
    case False
    with p show ?thesis by (simp add: splitroot_def)
  next
    case True
    note a = this
    show ?thesis
    proof (cases q)
      case Nil
      with p a show ?thesis by (simp add: splitroot_def basename_slash)
    next
      case (Cons b r)
      with p a show ?thesis
        by (cases "b = CHR ''/''") (auto simp: splitroot_def basename_slash)
    qed
  qed
qed

lemma last_filter_keeps:
  assumes "xs \<noteq> []" and "P (last xs)"
  shows "filter P xs \<noteq> [] \<and> last (filter P xs) = last xs"
  using assms by (induction xs) (auto split: if_splits)

lemma last_parts:
  assumes "basename p \<noteq> []" and "basename p \<noteq> ''.''"
  shows "parts p \<noteq> [] \<and> last (parts p) = basename p"
proof -
  obtain root rel where sr: "splitroot p = (root, rel)" by (cases "splitroot p")
  then have b: "basename rel = basename p" using basename_splitroot [of p] by simp
  let ?xs = "split CHR ''/'' rel"
  let ?P = "\<lambda>x. x \<noteq> [] \<and> x \<noteq> ''.''"
  have ne: "?xs \<noteq> []" by (simp add: split_def split_acc_nonempty)
  have "?P (last ?xs)" using assms b by (simp add: last_split)
  from last_filter_keeps [of ?xs ?P, OF ne this]
  have "filter ?P ?xs \<noteq> []" and "last (filter ?P ?xs) = basename p"
    using b by (simp_all add: last_split)
  with sr show ?thesis by (simp add: parts_def)
qed

text \<open>
  C8, as the code has it. For a path whose basename is neither empty nor \<open>.\<close>, the
  predicate holds exactly when some part of the path matches some pattern: the basename is
  the last part, so testing it again changes nothing.
\<close>

theorem should_exclude_parts_only:
  assumes "basename path \<noteq> []" and "basename path \<noteq> ''.''"
  shows "should_exclude fm path pats = (\<exists>pat\<in>set pats. \<exists>part\<in>set (parts path). fm part pat)
         \<and> parts path \<noteq> [] \<and> last (parts path) = basename path"
proof -
  from last_parts [OF assms] have l: "parts path \<noteq> []" "last (parts path) = basename path"
    by simp_all
  then have "basename path \<in> set (parts path)" using last_in_set by metis
  then have "should_exclude fm path pats = (\<exists>pat\<in>set pats. \<exists>part\<in>set (parts path). fm part pat)"
    unfolding should_exclude_iff by blast
  with l show ?thesis by simp
qed

theorem should_exclude_parts_only_witness:
  "basename ''src/a.pyc'' \<noteq> [] \<and> basename ''src/a.pyc'' \<noteq> ''.''
   \<and> should_exclude glob_match ''src/a.pyc'' [''*.pyc'']
   \<and> last (parts ''src/a.pyc'') = ''a.pyc''"
proof -
  have b: "basename ''src/a.pyc'' = ''a.pyc''" by (simp add: basename_def)
  have h1: "basename ''src/a.pyc'' \<noteq> []" and h2: "basename ''src/a.pyc'' \<noteq> ''.''"
    by (simp_all add: b)
  have p: "parts ''src/a.pyc'' = [''src'', ''a.pyc'']"
    by (simp add: parts_def splitroot_def split_def)
  from should_exclude_parts_only [OF h1 h2, of glob_match "[''*.pyc'']"] h1 h2
  show ?thesis by (simp add: p b)
qed

text \<open>
  A non-empty basename alone is not enough: \<open>Path(".").parts\<close> is empty, while the basename
  of \<open>.\<close> is \<open>.\<close> and matches the pattern \<open>.\<close>, so that here only the basename test makes
  the predicate true.
\<close>

theorem basename_check_counterexample:
  "basename ''.'' = ''.'' \<and> parts ''.'' = [] \<and> should_exclude glob_match ''.'' [''.'']"
  by (simp add: basename_def parts_def splitroot_def split_def)

section \<open>The invariant of the language aggregation\<close>

lemma fold_nested:
  "fold (\<lambda>(root, files) st. fold (f root) files st) ws st
     = fold (\<lambda>(root, entry). f root entry) (concat (map (\<lambda>(root, files). map (Pair root) files) ws)) st"
proof (induction ws arbitrary: st)
  case Nil
  then show ?case by simp
next
  case (Cons w ws)
  obtain root files where w: "w = (root, files)" by (cases w)
  have "fold (\<lambda>(root, entry). f root entry) (map (Pair root) files) st = fold (f root) files st"
    by (simp add: fold_map comp_def)
  with Cons.IH w show ?case by simp
qed

lemma collect_languages_visits:
  "collect_languages fm tree base_dir pats
     = fold (\<lambda>(root, entry). lang_file fm pats root entry) (visits fm pats base_dir tree) lang_init"
  by (simp add: collect_languages_def visits_def fold_nested)

lemma collect_words_visits:
  "collect_words fm tree base_dir pats
     = fold (\<lambda>(root, entry). word_file fm pats root entry) (visits fm pats base_dir tree) word_init"
  by (simp add: collect_words_def visits_def fold_nested)

lemma sum_dict_set:
  "sum_list (map snd (dict_set k (counter_get d k + n) d)) = sum_list (map snd d) + n"
  by (induction d) (auto simp: counter_get_def)

lemma keys_dict_set:
  "map fst (dict_set k v d) = (if k \<in> fst ` set d then map fst d else map fst d @ [k])"
  by (induction d) (fastforce simp: image_iff)+

lemma keyset_dict_set: "fst ` set (dict_set k v d) = insert k (fst ` set d)"
proof -
  have "set (map fst (dict_set k v d)) = insert k (set (map fst d))"
    unfolding keys_dict_set by (simp add: insert_absorb)
  then show ?thesis by simp
qed

lemma map_of_None_keys: "(map_of d k = None) = (k \<notin> fst ` set d)"
  by (simp add: map_of_eq_None_iff)

lemma lang_inv_init: "lang_inv lang_init"
  by (simp add: lang_inv_def lang_init_def counter_get_def list_get_def)

lemma lang_inv_step:
  assumes "lang_inv st"
  shows "lang_inv (lang_file fm pats root entry st)"
proof (cases "should_exclude fm (join root (fst entry)) pats")
  case True
  then have "lang_file fm pats root entry st = st\<lparr>files_skipped := files_skipped st + 1\<rparr>"
    by (simp add: lang_file_def)
  with assms show ?thesis by (auto simp: lang_inv_def)
next
  case False
  note ne = this
  show ?thesis
  proof (cases "map_of LANGUAGE_MAP (str_lower (snd (splitext (fst entry))))")
    case None
    with ne assms show ?thesis by (simp add: lang_file_def)
  next
    case (Some language)
    let ?c = "language_counts st" and ?b = "files_by_language st"
    let ?b1 = "if map_of ?b language = None then dict_set language [] ?b else ?b"
    let ?c' = "dict_set language (counter_get ?c language + 1) ?c"
    let ?b' = "dict_set language (list_get ?b1 language @ [join root (fst entry)]) ?b1"
    have st': "lang_file fm pats root entry st
        = st\<lparr>language_counts := ?c', files_by_language := ?b',
             files_processed := files_processed st + 1\<rparr>"
      using ne Some by (simp add: lang_file_def Let_def)
    from assms have p: "files_processed st = sum_list (map snd ?c)"
      and l: "\<And>l. counter_get ?c l = length (list_get ?b l)"
      and k: "map fst ?c = map fst ?b" and d: "distinct (map fst ?c)"
      unfolding lang_inv_def by blast+
    have kset: "fst ` set ?c = fst ` set ?b"
      using k by (metis set_map)
    have g1: "list_get ?b1 l = list_get ?b l" for l
      by (simp add: list_get_dict_set) (simp add: list_get_def)
    have k1: "map fst ?b1 = (if language \<in> fst ` set ?b then map fst ?b else map fst ?b @ [language])"
      by (simp add: keys_dict_set map_of_None_keys)
    have in1: "language \<in> fst ` set ?b1"
      by (simp add: keyset_dict_set map_of_None_keys)
    have a: "sum_list (map snd ?c') = files_processed st + 1"
      using p sum_dict_set [of language ?c 1] by simp
    have b: "counter_get ?c' l = length (list_get ?b' l)" for l
      using l [of l] l [of language] by (simp add: counter_get_dict_set list_get_dict_set g1)
    have c: "map fst ?c' = map fst ?b'"
      using k kset in1 k1 by (simp add: keys_dict_set)
    have e: "distinct (map fst ?c')"
      using d by (simp add: keys_dict_set)
    from a b c e show ?thesis by (simp add: st' lang_inv_def)
  qed
qed

lemma lang_inv_fold:
  "lang_inv st \<Longrightarrow> lang_inv (fold (\<lambda>(root, entry). lang_file fm pats root entry) vs st)"
  by (induction vs arbitrary: st) (auto simp: lang_inv_step)

text \<open>
  C9. The invariant \<open>lang_inv\<close> holds after any number \<open>k\<close> of runs of the loop body of
  \<open>collect_languages\<close> (none, some, or all of them) and so of the state the function
  returns: the processed counter equals the sum of the language counts, each label's count
  is the number of paths recorded under it, and both dictionaries have the same keys.
\<close>

theorem language_invariant:
  "lang_inv (fold (\<lambda>(root, entry). lang_file fm pats root entry)
               (take k (visits fm pats base_dir tree)) lang_init)
   \<and> collect_languages fm tree base_dir pats
       = fold (\<lambda>(root, entry). lang_file fm pats root entry) (visits fm pats base_dir tree) lang_init
   \<and> lang_inv (collect_languages fm tree base_dir pats)"
  by (simp add: lang_inv_fold lang_inv_init collect_languages_visits)

section \<open>Properties of the word pipeline's run\<close>

lemma visit_simps:
  "excluded fm pats (root, name, c) = should_exclude fm (join root name) pats"
  "candidate fm pats (root, name, c) = (\<not> should_exclude fm (join root name) pats \<and> is_text_file name)"
  "readable (root, name, Readable content) = True"
  "readable (root, name, Unreadable e) = False"
  "read_words (root, name, Readable content) = file_words content"
  "read_words (root, name, Unreadable e) = []"
  "read_warnings (root, name, Readable content) = []"
  "read_warnings (root, name, Unreadable e) = [read_warning (join root name) e]"
  "known_language (root, name, c) = (map_of LANGUAGE_MAP (str_lower (snd (splitext name))) \<noteq> None)"
  by (simp_all add: excluded_def candidate_def readable_def read_words_def read_warnings_def
      known_language_def)

lemma word_fold:
  "fold (\<lambda>(root, entry). word_file fm pats root entry) vs st
     = st\<lparr>files_processed := files_processed st + length (filter readable (filter (candidate fm pats) vs)),
          files_skipped := files_skipped st + length (filter (excluded fm pats) vs),
          words := words st @ concat (map read_words (filter (candidate fm pats) vs)),
          warnings := warnings st @ concat (map read_warnings (filter (candidate fm pats) vs))\<rparr>"
proof (induction vs arbitrary: st)
  case Nil
  then show ?case by simp
next
  case (Cons v vs)
  obtain root name c where v: "v = (root, name, c)" by (cases v)
  let ?st = "word_file fm pats root (name, c) st"
  have unfold: "fold (\<lambda>(root, entry). word_file fm pats root entry) (v # vs) st
       = fold (\<lambda>(root, entry). word_file fm pats root entry) vs ?st"
    by (simp add: v)
  show ?case
  proof (cases "should_exclude fm (join root name) pats")
    case True
    then have "?st = st\<lparr>files_skipped := files_skipped st + 1\<rparr>"
      by (simp add: word_file_def)
    with True show ?thesis
      unfolding unfold Cons.IH by (simp add: v visit_simps)
  next
    case False
    note ne = this
    show ?thesis
    proof (cases "is_text_file name")
      case False
      with ne have "?st = st" by (simp add: word_file_def)
      with ne False show ?thesis
        unfolding unfold Cons.IH by (simp add: v visit_simps)
    next
      case True
      note tf = this
      show ?thesis
      proof (cases c)
        case (Readable content)
        with ne tf have "?st = st\<lparr>words := words st @ file_words content,
                                  files_processed := files_processed st + 1\<rparr>"
          by (simp add: word_file_def)
        with ne tf Readable show ?thesis
          unfolding unfold Cons.IH
          by (simp add: v visit_simps)
      next
        case (Unreadable e)
        with ne tf have "?st = st\<lparr>warnings := warnings st @ [read_warning (join root name) e]\<rparr>"
          by (simp add: word_file_def)
        with ne tf Unreadable show ?thesis
          unfolding unfold Cons.IH
          by (simp add: v visit_simps)
      qed
    qed
  qed
qed

text \<open>
  C6. A read failure stays with its file. The words returned are the words of all readable
  candidate files (visited, not excluded, with a listed extension), in the order of the
  visits, whatever unreadable files come before or after them; each unreadable candidate
  contributes one warning and no word; the processed counter counts the readable
  candidates. The function is total: it returns a state for every tree.
\<close>

theorem read_failure_is_local:
  "words (collect_words fm tree base_dir pats)
     = concat (map read_words (filter (candidate fm pats) (visits fm pats base_dir tree)))
   \<and> warnings (collect_words fm tree base_dir pats)
       = concat (map read_warnings (filter (candidate fm pats) (visits fm pats base_dir tree)))
   \<and> files_processed (collect_words fm tree base_dir pats)
       = length (filter readable (filter (candidate fm pats) (visits fm pats base_dir tree)))
   \<and> read_words (root, file, Unreadable e) = []
   \<and> read_warnings (root, file, Unreadable e) = [read_warning (join root file) e]
   \<and> read_words (root, file, Readable content) = file_words content"
  by (simp add: collect_words_visits word_fold word_init_def visit_simps)

section \<open>Pruning of excluded directories\<close>

lemma lang_fold_counters:
  "files_processed (fold (\<lambda>(root, entry). lang_file fm pats root entry) vs st)
     = files_processed st
       + length (filter known_language (filter (\<lambda>v. \<not> excluded fm pats v) vs))
   \<and> files_skipped (fold (\<lambda>(root, entry). lang_file fm pats root entry) vs st)
       = files_skipped st + length (filter (excluded fm pats) vs)"
proof (induction vs arbitrary: st)
  case Nil
  then show ?case by simp
next
  case (Cons v vs)
  obtain root name c where v: "v = (root, name, c)" by (cases v)
  let ?st = "lang_file fm pats root (name, c) st"
  have unfold: "fold (\<lambda>(root, entry). lang_file fm pats root entry) (v # vs) st
       = fold (\<lambda>(root, entry). lang_file fm pats root entry) vs ?st"
    by (simp add: v)
  show ?case
  proof (cases "should_exclude fm (join root name) pats")
    case True
    then have "files_processed ?st = files_processed st"
      and "files_skipped ?st = files_skipped st + 1"
      by (simp_all add: lang_file_def)
    with True show ?thesis
      unfolding unfold using Cons.IH [of ?st] by (simp add: v visit_simps)
  next
    case False
    note ne = this
    show ?thesis
    proof (cases "map_of LANGUAGE_MAP (str_lower (snd (splitext name)))")
      case None
      with ne have "?st = st" by (simp add: lang_file_def)
      with ne None show ?thesis
        unfolding unfold using Cons.IH [of st] by (simp add: v visit_simps)
    next
      case (Some language)
      with ne have "files_processed ?st = files_processed st + 1"
        and "files_skipped ?st = files_skipped st"
        by (simp_all add: lang_file_def Let_def)
      with ne Some show ?thesis
        unfolding unfold using Cons.IH [of ?st] by (simp add: v visit_simps)
    qed
  qed
qed

lemma path_of_snoc: "path_of base_dir (ds @ [d]) = join (path_of base_dir ds) d"
  by (simp add: path_of_def)

lemma walk_walk_chain:
  "walk fm pats (path_of base_dir ds) tree
     = map (\<lambda>(es, fs). (path_of base_dir es, fs)) (walk_chain fm pats base_dir ds tree)"
proof (induction fm pats base_dir ds tree rule: walk_chain.induct)
  case (1 fm pats base_dir ds files dirs)
  let ?keep = "filter (\<lambda>(d, t). \<not> should_exclude fm (join (path_of base_dir ds) d) pats) dirs"
  let ?f = "\<lambda>(es, fs). (path_of base_dir es, fs)"
  let ?F = "\<lambda>(d, t). walk fm pats (join (path_of base_dir ds) d) t"
  let ?H = "\<lambda>(d, t). walk_chain fm pats base_dir (ds @ [d]) t"
  have pw: "?F x = map ?f (?H x)" if "x \<in> set ?keep" for x
  proof -
    obtain d t where x: "x = (d, t)" by (cases x)
    from "1.IH" [OF that [unfolded x] refl] show ?thesis
      by (simp add: x path_of_snoc)
  qed
  have m1: "map ?F ?keep = map (\<lambda>x. map ?f (?H x)) ?keep"
    by (rule map_cong [OF refl]) (rule pw)
  have m2: "map (\<lambda>x. map ?f (?H x)) ?keep = map (map ?f) (map ?H ?keep)"
    by (simp add: comp_def)
  have "walk fm pats (path_of base_dir ds) (Dir files dirs)
          = (path_of base_dir ds, files) # concat (map ?F ?keep)"
    by simp
  also have "\<dots> = (path_of base_dir ds, files) # concat (map (map ?f) (map ?H ?keep))"
    by (simp only: m1 m2)
  also have "\<dots> = map ?f (walk_chain fm pats base_dir ds (Dir files dirs))"
    by (simp add: map_concat)
  finally show ?case .
qed

lemma walk_chain_sound:
  assumes "(es, fs) \<in> set (walk_chain fm pats base_dir ds tree)"
  shows "take (length ds) es = ds
         \<and> (\<forall>k. length ds < k \<and> k \<le> length es
                \<longrightarrow> \<not> should_exclude fm (path_of base_dir (take k es)) pats)"
  using assms
proof (induction fm pats base_dir ds tree arbitrary: es fs rule: walk_chain.induct)
  case (1 fm pats base_dir ds files dirs)
  let ?keep = "filter (\<lambda>(d, t). \<not> should_exclude fm (join (path_of base_dir ds) d) pats) dirs"
  from "1.prems" consider (here) "es = ds"
    | (below) d t where "(d, t) \<in> set ?keep" "(es, fs) \<in> set (walk_chain fm pats base_dir (ds @ [d]) t)"
    by auto
  then show ?case
  proof cases
    case here
    then show ?thesis by auto
  next
    case below
    from "1.IH" [OF below(1) refl below(2)]
    have pre: "take (Suc (length ds)) es = ds @ [d]"
      and deep: "\<And>k. Suc (length ds) < k \<Longrightarrow> k \<le> length es
                   \<Longrightarrow> \<not> should_exclude fm (path_of base_dir (take k es)) pats"
      by simp_all
    from below(1) have keep: "\<not> should_exclude fm (join (path_of base_dir ds) d) pats" by simp
    have "take (length ds) es = take (length ds) (take (Suc (length ds)) es)"
      by (simp add: min_def)
    also have "\<dots> = ds" by (simp add: pre)
    finally have t: "take (length ds) es = ds" .
    have "\<not> should_exclude fm (path_of base_dir (take k es)) pats"
      if "length ds < k" "k \<le> length es" for k
    proof (cases "k = Suc (length ds)")
      case True
      with pre keep show ?thesis by (simp add: path_of_snoc)
    next
      case False
      with that have "Suc (length ds) < k" by simp
      from deep [OF this that(2)] show ?thesis .
    qed
    with t show ?thesis by simp
  qed
qed

text \<open>
  C2, as the code has it. Let \<open>ds\<close> be the chain of a directory below the base directory.
  If one of its ancestors below the base directory, or the directory itself (the nonempty
  prefix \<open>take k ds\<close>), has a path that the exclusion predicate matches, then the walk does
  not yield the directory, so none of its files is visited. The walk is the chain walk with
  every chain turned into its path, and in both pipelines the processed and skipped totals
  count visited files only.
\<close>

theorem excluded_directory_is_pruned:
  assumes "0 < k" and "k \<le> length ds"
    and "should_exclude fm (path_of base_dir (take k ds)) pats"
  shows "(ds, files) \<notin> set (walk_chain fm pats base_dir [] tree)
         \<and> walk fm pats base_dir tree
             = map (\<lambda>(es, fs). (path_of base_dir es, fs)) (walk_chain fm pats base_dir [] tree)
         \<and> files_skipped (collect_words fm tree base_dir pats)
             = length (filter (excluded fm pats) (visits fm pats base_dir tree))
         \<and> files_processed (collect_words fm tree base_dir pats)
             = length (filter readable (filter (candidate fm pats) (visits fm pats base_dir tree)))
         \<and> files_skipped (collect_languages fm tree base_dir pats)
             = length (filter (excluded fm pats) (visits fm pats base_dir tree))
         \<and> files_processed (collect_languages fm tree base_dir pats)
             = length (filter known_language
                 (filter (\<lambda>v. \<not> excluded fm pats v) (visits fm pats base_dir tree)))"
proof -
  have a: "(ds, files) \<notin> set (walk_chain fm pats base_dir [] tree)"
  proof
    assume "(ds, files) \<in> set (walk_chain fm pats base_dir [] tree)"
    from walk_chain_sound [OF this] assms show False by simp
  qed
  have b: "walk fm pats base_dir tree
             = map (\<lambda>(es, fs). (path_of base_dir es, fs)) (walk_chain fm pats base_dir [] tree)"
    using walk_walk_chain [of fm pats base_dir "[]" tree] by (simp add: path_of_def)
  have c: "files_skipped (collect_words fm tree base_dir pats)
             = length (filter (excluded fm pats) (visits fm pats base_dir tree))"
    and d: "files_processed (collect_words fm tree base_dir pats)
             = length (filter readable (filter (candidate fm pats) (visits fm pats base_dir tree)))"
    by (simp_all add: collect_words_visits word_fold word_init_def)
  have e: "files_skipped (collect_languages fm tree base_dir pats)
             = length (filter (excluded fm pats) (visits fm pats base_dir tree))"
    and f: "files_processed (collect_languages fm tree base_dir pats)
             = length (filter known_language
                 (filter (\<lambda>v. \<not> excluded fm pats v) (visits fm pats base_dir tree)))"
    using lang_fold_counters [of fm pats "visits fm pats base_dir tree" lang_init]
    by (simp_all add: collect_languages_visits lang_init_def)
  from a b c d e f show ?thesis by blast
qed

theorem excluded_directory_is_pruned_witness:
  "should_exclude glob_match (path_of ''repo'' (take 1 [''node_modules''])) [''node_modules'']
   \<and> ([''node_modules''], [(''lib.js'', Readable ''y'')])
       \<notin> set (walk_chain glob_match [''node_modules''] ''repo'' []
                (Dir [(''a.py'', Readable ''x'')]
                     [(''node_modules'', Dir [(''lib.js'', Readable ''y'')] []),
                      (''src'', Dir [(''b.py'', Readable ''z'')] [])]))
   \<and> visits glob_match [''node_modules''] ''repo''
         (Dir [(''a.py'', Readable ''x'')]
              [(''node_modules'', Dir [(''lib.js'', Readable ''y'')] []),
               (''src'', Dir [(''b.py'', Readable ''z'')] [])])
       = [(''repo'', ''a.py'', Readable ''x''), (''repo/src'', ''b.py'', Readable ''z'')]"
proof -
  have j: "join ''repo'' ''node_modules'' = ''repo/node_modules''" "join ''repo'' ''src'' = ''repo/src''"
    by (simp_all add: join_def startswith_def endswith_def)
  have h: "should_exclude glob_match (path_of ''repo'' (take 1 [''node_modules''])) [''node_modules'']"
    by (simp add: path_of_def j parts_def splitroot_def split_def)
  have n: "\<not> should_exclude glob_match ''repo/src'' [''node_modules'']"
    by (simp add: parts_def splitroot_def split_def basename_def)
  have x: "should_exclude glob_match ''repo/node_modules'' [''node_modules'']"
    by (simp add: parts_def splitroot_def split_def)
  have v: "visits glob_match [''node_modules''] ''repo''
         (Dir [(''a.py'', Readable ''x'')]
              [(''node_modules'', Dir [(''lib.js'', Readable ''y'')] []),
               (''src'', Dir [(''b.py'', Readable ''z'')] [])])
       = [(''repo'', ''a.py'', Readable ''x''), (''repo/src'', ''b.py'', Readable ''z'')]"
    by (simp add: visits_def j n x del: should_exclude.simps)
  have k: "0 < (1::nat)" "1 \<le> length [''node_modules'']" by simp_all
  from excluded_directory_is_pruned [OF k h]
  have "([''node_modules''], [(''lib.js'', Readable ''y'')])
       \<notin> set (walk_chain glob_match [''node_modules''] ''repo'' []
                (Dir [(''a.py'', Readable ''x'')]
                     [(''node_modules'', Dir [(''lib.js'', Readable ''y'')] []),
                      (''src'', Dir [(''b.py'', Readable ''z'')] [])]))"
    by (rule conjunct1)
  with h v show ?thesis by blast
qed

text \<open>
  The base directory itself is never tested. When its own path matches a pattern, its files
  are still visited, and each is counted as skipped.
\<close>

theorem base_directory_counterexample:
  "should_exclude glob_match ''/srv/build'' [''build'']
   \<and> visits glob_match [''build''] ''/srv/build'' (Dir [(''a.py'', Readable ''x'')] [])
       = [(''/srv/build'', ''a.py'', Readable ''x'')]
   \<and> files_skipped (collect_words glob_match (Dir [(''a.py'', Readable ''x'')] []) ''/srv/build'' [''build'']) = 1
   \<and> files_skipped (collect_languages glob_match (Dir [(''a.py'', Readable ''x'')] []) ''/srv/build'' [''build'']) = 1"
proof -
  have j: "join ''/srv/build'' ''a.py'' = ''/srv/build/a.py''"
    by (simp add: join_def startswith_def endswith_def)
  have a: "should_exclude glob_match ''/srv/build'' [''build'']"
    by (simp add: parts_def splitroot_def split_def)
  have b: "should_exclude glob_match ''/srv/build/a.py'' [''build'']"
    by (simp add: parts_def splitroot_def split_def)
  show ?thesis
    by (simp add: a b j visits_def collect_words_def collect_languages_def word_file_def
        lang_file_def word_init_def lang_init_def del: should_exclude.simps)
qed

section \<open>Properties of word extraction\<close>

lemma letter_word: "is_ascii_letter c \<Longrightarrow> is_word_char c"
  by (simp add: is_word_char_def)

lemma runs_takeWhile:
  "runs P cur s
     = (if cur @ takeWhile P s = [] then [] else [cur @ takeWhile P s]) @ runs P [] (dropWhile P s)"
  by (induction s arbitrary: cur) auto

lemma head_dropWhile: "(case dropWhile P s of [] \<Rightarrow> False | c # _ \<Rightarrow> P c) = False"
  by (induction s) auto

lemma letters_prefix_le:
  "length (takeWhile is_ascii_letter s) \<le> length (takeWhile is_word_char s)"
  by (induction s) (auto simp: letter_word)

lemma letters_all:
  "list_all is_ascii_letter (takeWhile is_word_char s)
     \<Longrightarrow> takeWhile is_ascii_letter s = takeWhile is_word_char s"
  by (induction s) (auto simp: letter_word)

lemma letters_same_length:
  "length (takeWhile is_ascii_letter s) = length (takeWhile is_word_char s)
     \<Longrightarrow> list_all is_ascii_letter (takeWhile is_word_char s)"
  by (induction s) (auto simp: letter_word split: if_splits)

lemma backtrack_None:
  assumes "\<And>k. k < n \<Longrightarrow> \<not> at_boundary (Some (s ! k)) (drop (Suc k) s)"
  shows "backtrack s n = None"
  using assms by (induction n) auto

lemma word_run_nth:
  assumes "i < length (takeWhile is_word_char s)"
  shows "is_word_char (s ! i)"
proof -
  from assms have "takeWhile is_word_char s ! i \<in> set (takeWhile is_word_char s)"
    by (rule nth_mem)
  then have "is_word_char (takeWhile is_word_char s ! i)" by (rule set_takeWhileD [THEN conjunct2])
  with assms show ?thesis by (simp add: takeWhile_nth)
qed

lemma inside_run_no_boundary:
  assumes "Suc k < length (takeWhile is_word_char s)"
  shows "\<not> at_boundary (Some (s ! k)) (drop (Suc k) s)"
proof -
  from assms have a: "is_word_char (s ! k)" by (intro word_run_nth) simp
  from assms have b: "is_word_char (s ! Suc k)" by (rule word_run_nth)
  have "Suc k < length s"
    using assms length_takeWhile_le [of is_word_char s] by simp
  then have "drop (Suc k) s = s ! Suc k # drop (Suc (Suc k)) s"
    by (simp add: Cons_nth_drop_Suc)
  with a b show ?thesis by (simp add: at_boundary_def)
qed

lemma end_of_run_boundary:
  assumes "takeWhile is_word_char s \<noteq> []" and "n = length (takeWhile is_word_char s)"
  shows "at_boundary (Some (s ! (n - 1))) (drop n s)"
proof -
  from assms have "n - 1 < length (takeWhile is_word_char s)" by (cases n) simp_all
  then have a: "is_word_char (s ! (n - 1))" by (rule word_run_nth)
  have "drop n s = dropWhile is_word_char s" by (simp add: assms(2) dropWhile_eq_drop)
  with a show ?thesis by (simp add: at_boundary_def head_dropWhile)
qed

lemma match_at_off_boundary: "\<not> at_boundary prev s \<Longrightarrow> match_at prev s = None"
  by (simp add: match_at_def)

lemma match_at_plain:
  assumes "at_boundary prev s" and "plain_word (takeWhile is_word_char s)"
  shows "match_at prev s = Some (takeWhile is_word_char s)"
proof -
  let ?a = "takeWhile is_word_char s"
  from assms(2) have all: "list_all is_ascii_letter ?a" and len: "2 \<le> length ?a"
    by (simp_all add: plain_word_def)
  from letters_all [OF all] have l: "takeWhile is_ascii_letter s = ?a" .
  from len obtain m where m: "length ?a = Suc m" by (cases "length ?a") simp_all
  from len have "?a \<noteq> []" by auto
  from end_of_run_boundary [OF this refl] m
  have b: "at_boundary (Some (s ! m)) (drop (Suc m) s)" by simp
  have "take (Suc m) s = ?a"
    using takeWhile_eq_take [of is_word_char s] m by simp
  with b len m have "backtrack s (length ?a) = Some ?a" by simp
  with assms(1) l show ?thesis by (simp add: match_at_def)
qed

lemma match_at_not_plain:
  assumes "\<not> plain_word (takeWhile is_word_char s)"
  shows "match_at prev s = None"
proof -
  let ?a = "takeWhile is_word_char s" and ?l = "takeWhile is_ascii_letter s"
  have "backtrack s (length ?l) = None"
  proof (cases "list_all is_ascii_letter ?a")
    case True
    from letters_all [OF this] have "?l = ?a" .
    with assms True have "length ?l < 2" by (simp add: plain_word_def)
    then show ?thesis by (cases "length ?l") simp_all
  next
    case False
    with letters_same_length [of s] letters_prefix_le [of s]
    have "length ?l < length ?a" by (cases "length ?l = length ?a") auto
    then have "\<not> at_boundary (Some (s ! k)) (drop (Suc k) s)" if "k < length ?l" for k
      using that by (intro inside_run_no_boundary) simp
    then show ?thesis by (rule backtrack_None)
  qed
  then show ?thesis by (simp add: match_at_def)
qed

lemma findall_runs:
  "findall prev s
     = filter plain_word
         (runs is_word_char []
            (if (case prev of None \<Rightarrow> False | Some c \<Rightarrow> is_word_char c)
             then dropWhile is_word_char s else s))"
proof (induction prev s rule: findall.induct)
  case (1 prev)
  then show ?case by simp
next
  case (2 prev c cs)
  let ?s = "c # cs"
  let ?pw = "case prev of None \<Rightarrow> False | Some c \<Rightarrow> is_word_char c"
  let ?a = "takeWhile is_word_char ?s"
  show ?case
  proof (cases "is_word_char c")
    case False
    note nw = this
    then have "\<not> plain_word ?a" by (simp add: plain_word_def)
    from match_at_not_plain [OF this] have m: "match_at prev ?s = None" .
    from "2.IH"(1) [OF m] nw have "findall (Some c) cs = filter plain_word (runs is_word_char [] cs)"
      by simp
    with m nw show ?thesis by simp
  next
    case True
    note w = this
    show ?thesis
    proof (cases "?pw")
      case True
      with w have "\<not> at_boundary prev ?s" by (simp add: at_boundary_def)
      from match_at_off_boundary [OF this] have m: "match_at prev ?s = None" .
      from "2.IH"(1) [OF m] w
      have "findall (Some c) cs = filter plain_word (runs is_word_char [] (dropWhile is_word_char cs))"
        by simp
      with m w True show ?thesis by simp
    next
      case False
      note start = this
      with w have b: "at_boundary prev ?s" by (simp add: at_boundary_def)
      have split: "runs is_word_char [] ?s = ?a # runs is_word_char [] (dropWhile is_word_char cs)"
        using w runs_takeWhile [of is_word_char "[]" ?s] by simp
      show ?thesis
      proof (cases "plain_word ?a")
        case True
        from match_at_plain [OF b True] have m: "match_at prev ?s = Some ?a" .
        from w have "last ?a \<in> set ?a" by (intro last_in_set) simp
        then have lw: "is_word_char (last ?a)" by (rule set_takeWhileD [THEN conjunct2])
        have "drop (length ?a) ?s = dropWhile is_word_char ?s"
          by (simp only: dropWhile_eq_drop)
        then have d: "drop (length ?a) ?s = dropWhile is_word_char cs" using w by simp
        from "2.IH"(2) [OF m] lw
        have "findall (Some (last ?a)) (drop (length ?a) ?s)
                = filter plain_word (runs is_word_char [] (dropWhile is_word_char cs))"
          unfolding d by simp
        with m True start split show ?thesis
          by (simp del: takeWhile.simps dropWhile.simps add: d)
      next
        case False
        from match_at_not_plain [OF False] have m: "match_at prev ?s = None" .
        from "2.IH"(1) [OF m] w
        have "findall (Some c) cs = filter plain_word (runs is_word_char [] (dropWhile is_word_char cs))"
          by simp
        with m False start split show ?thesis by simp
      qed
    qed
  qed
qed

text \<open>
  C1, as the code has it. The words of a file are, in order of appearance, those maximal
  runs of word characters (letters, digits, underscore) of the lowercased content that
  consist of ASCII letters only and have at least two of them. A run that holds a digit
  or an underscore is dropped whole, and so is a single letter. The sample line of the
  specification gives its four words.
\<close>

theorem file_words_plain_runs:
  "file_words content = filter plain_word (maximal_runs is_word_char (str_lower content))
   \<and> file_words ''def foo(): return foo'' = [''def'', ''foo'', ''return'', ''foo'']"
proof -
  have "file_words ''def foo(): return foo'' = [''def'', ''foo'', ''return'', ''foo'']"
    by (simp add: file_words_def str_lower_def lower_char_def cp_def match_at_def at_boundary_def
        is_word_char_def is_ascii_letter_def)
  then show ?thesis by (simp add: file_words_def findall_runs maximal_runs_def)
qed

text \<open>
  The word boundaries of the pattern make it more than a search for runs of letters:
  letters that touch a digit or an underscore are no word at all, where the runs of letters
  alone would give \<open>abc\<close>, and \<open>foo\<close> and \<open>bar\<close>.
\<close>

theorem letters_next_to_digits_counterexample:
  "file_words ''abc123'' = [] \<and> claimed_words ''abc123'' = [''abc'']
   \<and> file_words ''foo_bar'' = [] \<and> claimed_words ''foo_bar'' = [''foo'', ''bar'']"
  by (simp add: file_words_def claimed_words_def maximal_runs_def str_lower_def lower_char_def
      cp_def match_at_def at_boundary_def is_word_char_def is_ascii_letter_def)

end
